theory Spec2Isabelle
  imports Complex_Main "HOL-Library.Word"
begin

section \<open>C integers, characters and library functions\<close>

text \<open>
  The program is \<^verbatim>\<open>equipment_tracker_enhanced.c\<close>, a C program for a POSIX system
  with the GNU C library. Where C leaves a choice to the implementation the model follows
  the x86-64 System V ABI: \<^verbatim>\<open>int\<close> has 32 bits in two's complement and plain
  \<^verbatim>\<open>char\<close> is signed. The model keeps an \<^verbatim>\<open>int\<close> as an \<^typ>\<open>int\<close> and writes the
  wrap-around of every addition out with \<open>int32\<close>. Signed overflow and a conversion out
  of range are undefined in C; the model gives them the value the machine computes, and
  the theorems that depend on it carry the bounds that exclude them.
\<close>

definition INT_MAX :: int where
  "INT_MAX = 2147483647"

definition INT_MIN :: int where
  "INT_MIN = - 2147483648"

definition int32 :: "int \<Rightarrow> int" where
  "int32 x = (x + 2147483648) mod 4294967296 - 2147483648"

text \<open>C's \<^verbatim>\<open>%\<close> truncates towards zero: the result has the sign of the dividend.\<close>

definition c_rem :: "int \<Rightarrow> int \<Rightarrow> int" where
  "c_rem a b = sgn a * (\<bar>a\<bar> mod \<bar>b\<bar>)"

text \<open>
  The conversion \<^verbatim>\<open>(int)x\<close> of a double drops the fraction. Outside the range of
  \<^verbatim>\<open>int\<close> it is undefined in C; the model returns \<open>INT_MIN\<close> there, the value the
  x86-64 conversion instruction gives.
\<close>

definition double_to_int :: "real \<Rightarrow> int" where
  "double_to_int x =
     (let k = (if 0 \<le> x then \<lfloor>x\<rfloor> else \<lceil>x\<rceil>)
      in if INT_MIN \<le> k \<and> k \<le> INT_MAX then k else INT_MIN)"

text \<open>
  A C string is the list of its bytes before the terminating NUL. The value of a plain
  \<^verbatim>\<open>char\<close> in an expression is signed: bytes from \<open>0x80\<close> on are negative. For 7-bit
  characters the signed and the unsigned reading agree.
\<close>

definition char_to_int :: "char \<Rightarrow> int" where
  "char_to_int c = (if (of_char c :: int) < 128 then of_char c else of_char c - 256)"

text \<open>\<^verbatim>\<open>tolower\<close> in the C locale.\<close>

definition c_tolower :: "char \<Rightarrow> char" where
  "c_tolower c =
     (if 65 \<le> (of_char c :: nat) \<and> (of_char c :: nat) \<le> 90 then char_of ((of_char c :: nat) + 32) else c)"

text \<open>
  \<^verbatim>\<open>strcasestr(haystack, needle)\<close> of the C library, as a test for a non-NULL result:
  the needle occurs in the haystack at some position, letter case ignored. The empty
  needle occurs in every haystack.
\<close>

fun prefix_ci :: "string \<Rightarrow> string \<Rightarrow> bool" where
  "prefix_ci [] hs = True"
| "prefix_ci (n # ns) [] = False"
| "prefix_ci (n # ns) (h # hs) = (c_tolower n = c_tolower h \<and> prefix_ci ns hs)"

fun strcasestr :: "string \<Rightarrow> string \<Rightarrow> bool" where
  "strcasestr [] needle = prefix_ci needle []"
| "strcasestr (h # hs) needle = (prefix_ci needle (h # hs) \<or> strcasestr hs needle)"

text \<open>\<^verbatim>\<open>sprintf(buf, "%04d", v)\<close>: decimal, at least four characters wide, padded with
  zeros after the sign.\<close>

fun digits10 :: "nat \<Rightarrow> string" where
  "digits10 n =
     (if n < 10 then [char_of (48 + n)]
      else digits10 (n div 10) @ [char_of (48 + n mod 10)])"

declare digits10.simps [simp del]

definition zero_pad :: "nat \<Rightarrow> string \<Rightarrow> string" where
  "zero_pad w s = replicate (w - length s) (CHR ''0'') @ s"

definition sprintf_04d :: "int \<Rightarrow> string" where
  "sprintf_04d v =
     (if v < 0 then CHR ''-'' # zero_pad 3 (digits10 (nat (- v)))
      else zero_pad 4 (digits10 (nat v)))"

section \<open>Data model\<close>

definition MAX_ITEMS :: int where
  "MAX_ITEMS = 1000"

definition MAX_NAME_LEN :: nat where
  "MAX_NAME_LEN = 64"

definition MAX_DESC_LEN :: nat where
  "MAX_DESC_LEN = 256"

definition MAX_UNIT_LEN :: nat where
  "MAX_UNIT_LEN = 32"

definition MAX_LOCATION_LEN :: nat where
  "MAX_LOCATION_LEN = 64"

definition MAX_REQUESTS :: int where
  "MAX_REQUESTS = 500"

definition HASH_SIZE :: int where
  "HASH_SIZE = 1009"

record Equipment =
  id_e :: int
  name :: string
  description :: string
  quantity :: int
  min_threshold :: int
  unit :: string
  location :: string
  last_updated :: int
  classification :: int
  checksum :: string

record SupplyRequest =
  req_id :: int
  equipment_id :: int
  requested_qty :: int
  requesting_unit :: string
  request_time :: int
  status :: int
  priority :: int

datatype StockStatus = STATUS_OK | STATUS_WATCH | STATUS_LOW

definition REQ_PENDING :: int where
  "REQ_PENDING = 0"

definition REQ_APPROVED :: int where
  "REQ_APPROVED = 1"

definition REQ_FULFILLED :: int where
  "REQ_FULFILLED = 2"


text \<open>
  The globals of the program. The arrays \<^verbatim>\<open>inventory\<close> and \<^verbatim>\<open>requests\<close> are
  functions from the index to the slot; only the slots below \<open>item_count\<close> and
  \<open>request_count\<close> are live. An \<^verbatim>\<open>Equipment*\<close> is the index of its slot, and a
  bucket of \<^verbatim>\<open>hash_table\<close> is the chain of the pointers it holds, head first.
\<close>

record store =
  inventory :: "int \<Rightarrow> Equipment"
  requests :: "int \<Rightarrow> SupplyRequest"
  hash_table :: "int \<Rightarrow> int list"
  item_count :: int
  request_count :: int
  next_item_id :: int
  next_request_id :: int
  use_database :: bool

definition zero_equipment :: Equipment where
  "zero_equipment =
     \<lparr>id_e = 0, name = [], description = [], quantity = 0, min_threshold = 0, unit = [],
      location = [], last_updated = 0, classification = 0, checksum = []\<rparr>"

definition zero_request :: SupplyRequest where
  "zero_request =
     \<lparr>req_id = 0, equipment_id = 0, requested_qty = 0, requesting_unit = [],
      request_time = 0, status = 0, priority = 0\<rparr>"

text \<open>The state \<^verbatim>\<open>main\<close> starts from, once \<^verbatim>\<open>connect_database\<close> has set
  \<^verbatim>\<open>use_database\<close> and before \<^verbatim>\<open>load_data\<close>.\<close>

definition init_store :: "bool \<Rightarrow> store" where
  "init_store db =
     \<lparr>inventory = (\<lambda>i. zero_equipment), requests = (\<lambda>i. zero_request),
      hash_table = (\<lambda>b. []), item_count = 0, request_count = 0,
      next_item_id = 1, next_request_id = 1, use_database = db\<rparr>"

text \<open>The live records, in store order.\<close>

definition items :: "store \<Rightarrow> Equipment list" where
  "items s = map (inventory s) [0..item_count s - 1]"

definition reqs :: "store \<Rightarrow> SupplyRequest list" where
  "reqs s = map (requests s) [0..request_count s - 1]"

datatype error = NotFound | CapacityExceeded

section \<open>Utility functions\<close>

text \<open>\<^verbatim>\<open>hash_function\<close>: the hash is an \<^verbatim>\<open>unsigned int\<close>, each character is
  converted to \<^verbatim>\<open>int\<close> and then added.\<close>

definition hash_function :: "string \<Rightarrow> int" where
  "hash_function str =
     uint (foldl (\<lambda>hash c. push_bit 5 hash + hash + (word_of_int (char_to_int c) :: 32 word))
             5381 str) mod HASH_SIZE"

definition hash_insert :: "int \<Rightarrow> store \<Rightarrow> store" where
  "hash_insert p s =
     (let index = hash_function (name (inventory s p))
      in s\<lparr>hash_table := (hash_table s)(index := p # hash_table s index)\<rparr>)"

definition hash_find :: "store \<Rightarrow> string \<Rightarrow> int option" where
  "hash_find s nm =
     find (\<lambda>p. strcasestr (name (inventory s p)) nm) (hash_table s (hash_function nm))"

definition find_by_id :: "store \<Rightarrow> int \<Rightarrow> int option" where
  "find_by_id s x = find (\<lambda>i. id_e (inventory s i) = x) [0..item_count s - 1]"

definition get_stock_status :: "Equipment \<Rightarrow> StockStatus" where
  "get_stock_status item =
     (if quantity item \<le> min_threshold item then STATUS_LOW
      else if quantity item \<le> double_to_int (real_of_int (min_threshold item) * 1.5)
      then STATUS_WATCH
      else STATUS_OK)"

definition calculate_checksum :: "Equipment \<Rightarrow> int" where
  "calculate_checksum item =
     c_rem (foldl (\<lambda>sum c. int32 (sum + char_to_int c))
              (int32 (int32 (id_e item + quantity item) + min_threshold item))
              (name item))
       10000"

section \<open>The database backend\<close>

text \<open>
  The PostgreSQL server is outside the program. What it answers is an input of the model:
  \<open>None\<close> when \<^verbatim>\<open>execute_query\<close> returns NULL (no connection, or the query failed),
  otherwise the value \<^verbatim>\<open>atoi\<close> reads from the returned row.
\<close>

definition add_equipment_to_db :: "int option \<Rightarrow> int" where
  "add_equipment_to_db res = (case res of None \<Rightarrow> 0 | Some new_id \<Rightarrow> new_id)"

definition add_request_to_db :: "int option \<Rightarrow> int" where
  "add_request_to_db res = (case res of None \<Rightarrow> 0 | Some new_id \<Rightarrow> new_id)"

text \<open>
  \<^verbatim>\<open>load_equipment_from_db\<close>: the rows of the result are given with their columns
  already converted; \<^verbatim>\<open>strncpy\<close> into the zeroed buffers keeps a prefix of each text.
  The loop body for row \<open>i\<close>, then the loop over the rows kept.
\<close>

definition load_equipment_row :: "Equipment list \<Rightarrow> store \<Rightarrow> int \<Rightarrow> store" where
  "load_equipment_row rows s i =
     (let r = rows ! nat i;
          item = \<lparr>id_e = id_e r,
                  name = take (MAX_NAME_LEN - 1) (name r),
                  description = take (MAX_DESC_LEN - 1) (description r),
                  quantity = quantity r,
                  min_threshold = min_threshold r,
                  unit = take (MAX_UNIT_LEN - 1) (unit r),
                  location = take (MAX_LOCATION_LEN - 1) (location r),
                  last_updated = last_updated r,
                  classification = classification r,
                  checksum = take 15 (checksum r)\<rparr>;
          s1 = hash_insert i (s\<lparr>inventory := (inventory s)(i := item)\<rparr>)
      in if id_e item \<ge> next_item_id s1
         then s1\<lparr>next_item_id := int32 (id_e item + 1)\<rparr>
         else s1)"

definition load_equipment_from_db :: "Equipment list option \<Rightarrow> store \<Rightarrow> store" where
  "load_equipment_from_db res s =
     (case res of
        None \<Rightarrow> s
      | Some rows \<Rightarrow>
          (let n = int (length rows);
               s1 = s\<lparr>item_count := (if n > MAX_ITEMS then MAX_ITEMS else n)\<rparr>
           in foldl (load_equipment_row rows) s1 [0..item_count s1 - 1]))"

definition load_request_row :: "SupplyRequest list \<Rightarrow> store \<Rightarrow> int \<Rightarrow> store" where
  "load_request_row rows s i =
     (let r = rows ! nat i;
          req = \<lparr>req_id = req_id r,
                 equipment_id = equipment_id r,
                 requested_qty = requested_qty r,
                 requesting_unit = take (MAX_UNIT_LEN - 1) (requesting_unit r),
                 request_time = request_time r,
                 status = status r,
                 priority = priority r\<rparr>;
          s1 = s\<lparr>requests := (requests s)(i := req)\<rparr>
      in if req_id req \<ge> next_request_id s1
         then s1\<lparr>next_request_id := int32 (req_id req + 1)\<rparr>
         else s1)"

definition load_requests_from_db :: "SupplyRequest list option \<Rightarrow> store \<Rightarrow> store" where
  "load_requests_from_db res s =
     (case res of
        None \<Rightarrow> s
      | Some rows \<Rightarrow>
          (let n = int (length rows);
               s1 = s\<lparr>request_count := (if n > MAX_REQUESTS then MAX_REQUESTS else n)\<rparr>
           in foldl (load_request_row rows) s1 [0..request_count s1 - 1]))"

section \<open>Data persistence\<close>

text \<open>
  A snapshot file holds the count, the next-ID counter and the records that follow.
  A file system holds the two files, each present or missing.
\<close>

record 'a snapshot =
  snap_count :: int
  snap_next_id :: int
  snap_records :: "'a list"

record files =
  data_file :: "Equipment snapshot option"
  request_file :: "SupplyRequest snapshot option"

text \<open>
  \<^verbatim>\<open>fread(array, size, n, file)\<close> with \<open>n\<close> converted to \<^verbatim>\<open>size_t\<close>: a negative
  \<open>n\<close> asks for more records than any file holds. The records read fill the array from
  slot 0; the slots after them keep what they held.
\<close>

definition fread_count :: "int \<Rightarrow> 'a list \<Rightarrow> nat" where
  "fread_count n recs = (if n < 0 then length recs else min (nat n) (length recs))"

definition fread_into :: "(int \<Rightarrow> 'a) \<Rightarrow> int \<Rightarrow> 'a list \<Rightarrow> (int \<Rightarrow> 'a)" where
  "fread_into arr n recs =
     (\<lambda>i. if 0 \<le> i \<and> nat i < fread_count n recs then recs ! nat i else arr i)"

text \<open>
  The file branch of \<^verbatim>\<open>load_data\<close>, one file at a time. A count above the capacity
  of the array makes \<^verbatim>\<open>fread\<close> or the loop of \<^verbatim>\<open>hash_insert\<close> run past the
  array: undefined behaviour, \<open>None\<close> in the model.
\<close>

definition load_equipment_file :: "Equipment snapshot option \<Rightarrow> store \<Rightarrow> store option" where
  "load_equipment_file file s =
     (case file of
        None \<Rightarrow> Some s
      | Some f \<Rightarrow>
          if snap_count f > MAX_ITEMS \<or> int (fread_count (snap_count f) (snap_records f)) > MAX_ITEMS
          then None
          else
            (let s1 = s\<lparr>item_count := snap_count f, next_item_id := snap_next_id f,
                        inventory := fread_into (inventory s) (snap_count f) (snap_records f)\<rparr>
             in Some (foldl (\<lambda>t i. hash_insert i t) s1 [0..item_count s1 - 1])))"

definition load_request_file :: "SupplyRequest snapshot option \<Rightarrow> store \<Rightarrow> store option" where
  "load_request_file file s =
     (case file of
        None \<Rightarrow> Some s
      | Some f \<Rightarrow>
          if int (fread_count (snap_count f) (snap_records f)) > MAX_REQUESTS
          then None
          else Some (s\<lparr>request_count := snap_count f, next_request_id := snap_next_id f,
                       requests := fread_into (requests s) (snap_count f) (snap_records f)\<rparr>))"

definition load_data ::
  "Equipment list option \<Rightarrow> SupplyRequest list option \<Rightarrow> files \<Rightarrow> store \<Rightarrow> store option" where
  "load_data db_items db_reqs fs s =
     (if use_database s
      then Some (load_requests_from_db db_reqs (load_equipment_from_db db_items s))
      else
        (case load_equipment_file (data_file fs) s of
           None \<Rightarrow> None
         | Some s1 \<Rightarrow> load_request_file (request_file fs) s1))"

text \<open>
  \<^verbatim>\<open>fwrite(array, size, n, file)\<close> with \<open>n\<close> converted to \<^verbatim>\<open>size_t\<close> writes \<open>n\<close>
  slots of the array from slot 0 on. A negative \<open>n\<close>, as a \<^verbatim>\<open>size_t\<close>, and an \<open>n\<close>
  above the capacity of the array make it read past the array: undefined behaviour,
  \<open>None\<close> in the model.
\<close>

definition fwrite_from :: "(int \<Rightarrow> 'a) \<Rightarrow> int \<Rightarrow> int \<Rightarrow> 'a list option" where
  "fwrite_from arr capacity n =
     (if n < 0 \<or> capacity < n then None else Some (map arr [0..n - 1]))"

text \<open>
  One file of \<^verbatim>\<open>save_data\<close>: the flag says whether \<^verbatim>\<open>fopen(..., "wb")\<close> succeeded;
  a file that could not be opened keeps its old content.
\<close>

definition save_snapshot ::
  "bool \<Rightarrow> (int \<Rightarrow> 'a) \<Rightarrow> int \<Rightarrow> int \<Rightarrow> int \<Rightarrow> 'a snapshot option \<Rightarrow> 'a snapshot option option" where
  "save_snapshot opened arr capacity n next_id old =
     (if \<not> opened then Some old
      else
        (case fwrite_from arr capacity n of
           None \<Rightarrow> None
         | Some recs \<Rightarrow>
             Some (Some \<lparr>snap_count = n, snap_next_id = next_id, snap_records = recs\<rparr>)))"

text \<open>\<^verbatim>\<open>save_data\<close>: nothing is written in database mode.\<close>

definition save_data :: "bool \<Rightarrow> bool \<Rightarrow> store \<Rightarrow> files \<Rightarrow> files option" where
  "save_data open_data open_req s fs =
     (if \<not> use_database s
      then
        (case save_snapshot open_data (inventory s) MAX_ITEMS (item_count s) (next_item_id s)
                (data_file fs) of
           None \<Rightarrow> None
         | Some df \<Rightarrow>
             (case save_snapshot open_req (requests s) MAX_REQUESTS (request_count s)
                     (next_request_id s) (request_file fs) of
                None \<Rightarrow> None
              | Some rf \<Rightarrow> Some \<lparr>data_file = df, request_file = rf\<rparr>))
      else Some fs)"

section \<open>Core operations\<close>

text \<open>
  What the operator types is an input of each operation, as \<^verbatim>\<open>get_string_input\<close> and
  \<^verbatim>\<open>get_int_input\<close> return it; \<open>now\<close> is the value of \<^verbatim>\<open>time(NULL)\<close>.
\<close>

record equipment_draft =
  d_name :: string
  d_description :: string
  d_quantity :: int
  d_min_threshold :: int
  d_unit :: string
  d_location :: string
  d_classification :: int

definition add_equipment ::
  "equipment_draft \<Rightarrow> int \<Rightarrow> int option \<Rightarrow> store \<Rightarrow> (error + int) \<times> store" where
  "add_equipment d now db s =
     (if item_count s \<ge> MAX_ITEMS then (Inl CapacityExceeded, s)
      else
        (let k = item_count s;
             item0 = \<lparr>id_e = next_item_id s,
                      name = d_name d,
                      description = d_description d,
                      quantity = d_quantity d,
                      min_threshold = d_min_threshold d,
                      unit = d_unit d,
                      location = d_location d,
                      last_updated = now,
                      classification = d_classification d,
                      checksum = checksum (inventory s k)\<rparr>;
             next1 = int32 (next_item_id s + 1);
             item1 = item0\<lparr>checksum := sprintf_04d (calculate_checksum item0)\<rparr>;
             db_id = (if use_database s then add_equipment_to_db db else 0);
             item2 = (if use_database s \<and> db_id > 0 then item1\<lparr>id_e := db_id\<rparr> else item1);
             next2 = (if use_database s \<and> db_id > 0 \<and> db_id \<ge> next1
                      then int32 (db_id + 1) else next1);
             s1 = hash_insert k (s\<lparr>inventory := (inventory s)(k := item2),
                                   next_item_id := next2\<rparr>)
         in (Inr (id_e item2), s1\<lparr>item_count := int32 (k + 1)\<rparr>)))"

text \<open>\<^verbatim>\<open>check_inventory\<close>: the records it displays, in the order displayed.\<close>

definition check_inventory :: "store \<Rightarrow> string \<Rightarrow> Equipment list" where
  "check_inventory s item_name =
     (case hash_find s item_name of
        Some p \<Rightarrow> [inventory s p]
      | None \<Rightarrow> filter (\<lambda>e. strcasestr (name e) item_name) (items s))"

definition update_quantity :: "int \<Rightarrow> int \<Rightarrow> int \<Rightarrow> store \<Rightarrow> (error + unit) \<times> store" where
  "update_quantity x new_qty now s =
     (case find_by_id s x of
        None \<Rightarrow> (Inl NotFound, s)
      | Some p \<Rightarrow>
          (let item0 = (inventory s p)\<lparr>quantity := new_qty, last_updated := now\<rparr>;
               item1 = item0\<lparr>checksum := sprintf_04d (calculate_checksum item0)\<rparr>
           in (Inr (), s\<lparr>inventory := (inventory s)(p := item1)\<rparr>)))"

record request_draft =
  d_equipment_id :: int
  d_requested_qty :: int
  d_requesting_unit :: string
  d_priority :: int

definition request_supply ::
  "request_draft \<Rightarrow> int \<Rightarrow> int option \<Rightarrow> store \<Rightarrow> (error + int) \<times> store" where
  "request_supply d now db s =
     (if request_count s \<ge> MAX_REQUESTS then (Inl CapacityExceeded, s)
      else
        (let k = request_count s;
             req0 = (requests s k)\<lparr>req_id := next_request_id s,
                                    equipment_id := d_equipment_id d\<rparr>;
             next1 = int32 (next_request_id s + 1);
             s1 = s\<lparr>requests := (requests s)(k := req0), next_request_id := next1\<rparr>
         in case find_by_id s1 (equipment_id req0) of
              None \<Rightarrow> (Inl NotFound, s1)
            | Some p \<Rightarrow>
                (let req1 = req0\<lparr>requested_qty := d_requested_qty d,
                                  requesting_unit := d_requesting_unit d,
                                  priority := d_priority d,
                                  request_time := now,
                                  status := REQ_PENDING\<rparr>;
                     db_id = (if use_database s then add_request_to_db db else 0);
                     req2 = (if use_database s \<and> db_id > 0 then req1\<lparr>req_id := db_id\<rparr> else req1);
                     next2 = (if use_database s \<and> db_id > 0 \<and> db_id \<ge> next1
                              then int32 (db_id + 1) else next1)
                 in (Inr (req_id req2),
                     s1\<lparr>requests := (requests s1)(k := req2), next_request_id := next2,
                        request_count := int32 (k + 1)\<rparr>))))"

section \<open>Runs of the store\<close>

text \<open>
  The operations of the menu that write to the store are \<^verbatim>\<open>add_equipment\<close>,
  \<^verbatim>\<open>update_quantity\<close> and \<^verbatim>\<open>request_supply\<close>; the others only read it. A state is
  reachable when these lead to it from the initial state, with nothing loaded.
\<close>

inductive step :: "store \<Rightarrow> store \<Rightarrow> bool" where
  step_add: "step s (snd (add_equipment d now db s))"
| step_update: "step s (snd (update_quantity x new_qty now s))"
| step_request: "step s (snd (request_supply r now db s))"

inductive reachable :: "store \<Rightarrow> bool" where
  reachable_init: "reachable (init_store db)"
| reachable_step: "reachable s \<Longrightarrow> step s s' \<Longrightarrow> reachable s'"


text \<open>The id a call of \<^verbatim>\<open>add_equipment\<close> assigns when there is room, and the counter it
  leaves.\<close>

definition assigned_id :: "store \<Rightarrow> int option \<Rightarrow> int" where
  "assigned_id s db =
     (if use_database s \<and> add_equipment_to_db db > 0 then add_equipment_to_db db
      else next_item_id s)"

definition counter_after :: "store \<Rightarrow> int option \<Rightarrow> int" where
  "counter_after s db =
     (if use_database s \<and> add_equipment_to_db db > 0 \<and>
         add_equipment_to_db db \<ge> int32 (next_item_id s + 1)
      then int32 (add_equipment_to_db db + 1) else int32 (next_item_id s + 1))"


text \<open>
  The counter can still be incremented, and an id the database assigns is above every id
  held (and can itself be incremented).
\<close>

definition answer_fresh :: "store \<Rightarrow> int option \<Rightarrow> bool" where
  "answer_fresh s db \<longleftrightarrow>
     INT_MIN \<le> next_item_id s \<and> next_item_id s < INT_MAX \<and>
     (use_database s \<and> add_equipment_to_db db > 0 \<longrightarrow>
        (\<forall>e \<in> set (items s). id_e e < add_equipment_to_db db) \<and>
        add_equipment_to_db db < INT_MAX)"

fun answers_fresh :: "(equipment_draft \<times> int \<times> int option) list \<Rightarrow> store \<Rightarrow> bool" where
  "answers_fresh [] s = True"
| "answers_fresh ((d, now, db) # cs) s =
     (answer_fresh s db \<and> answers_fresh cs (snd (add_equipment d now db s)))"

text \<open>Every pointer in the index is the index of a live slot.\<close>

definition index_inv :: "store \<Rightarrow> bool" where
  "index_inv s \<longleftrightarrow>
     0 \<le> item_count s \<and>
     (\<forall>b. \<forall>p \<in> set (hash_table s b). 0 \<le> p \<and> p < item_count s)"


section \<open>Example inputs\<close>

definition radio_draft :: equipment_draft where
  "radio_draft =
     \<lparr>d_name = ''radio'', d_description = ''handheld radio'', d_quantity = 12,
      d_min_threshold = 10, d_unit = ''ea'', d_location = ''depot'', d_classification = 1\<rparr>"

definition radio_set_draft :: equipment_draft where
  "radio_set_draft =
     \<lparr>d_name = ''radio set'', d_description = ''vehicle radio set'', d_quantity = 3,
      d_min_threshold = 2, d_unit = ''ea'', d_location = ''depot'', d_classification = 1\<rparr>"

text \<open>The store after the two items were added, offline.\<close>

definition two_radios :: store where
  "two_radios =
     snd (add_equipment radio_set_draft 200 None
       (snd (add_equipment radio_draft 100 None (init_store False))))"

definition radio_request :: request_draft where
  "radio_request =
     \<lparr>d_equipment_id = 1, d_requested_qty = 5, d_requesting_unit = ''alpha'', d_priority = 3\<rparr>"

definition missing_request :: request_draft where
  "missing_request =
     \<lparr>d_equipment_id = 7, d_requested_qty = 5, d_requesting_unit = ''alpha'', d_priority = 3\<rparr>"

text \<open>The store after a request for the first item was filed.\<close>

definition radio_requested :: store where
  "radio_requested = snd (request_supply radio_request 300 None two_radios)"


text \<open>An item whose watch level, one and a half times the threshold, is not an
  \<^verbatim>\<open>int\<close>.\<close>

definition large_threshold_item :: Equipment where
  "large_threshold_item =
     zero_equipment\<lparr>id_e := 1, quantity := 2147483647, min_threshold := 1431655766\<rparr>"

definition no_files :: files where
  "no_files = \<lparr>data_file = None, request_file = None\<rparr>"

text \<open>Two records, and a snapshot of them whose stored counter was left at the id of the
  second record.\<close>

definition stale_rows :: "Equipment list" where
  "stale_rows =
     [zero_equipment\<lparr>id_e := 1, name := ''radio''\<rparr>,
      zero_equipment\<lparr>id_e := 2, name := ''tent''\<rparr>]"

definition stale_files :: files where
  "stale_files =
     \<lparr>data_file = Some \<lparr>snap_count = 2, snap_next_id = 2, snap_records = stale_rows\<rparr>,
      request_file = None\<rparr>"

text \<open>An item whose name is the two bytes of a UTF-8 letter e with acute accent.\<close>

definition accented_item :: Equipment where
  "accented_item = zero_equipment\<lparr>id_e := 1, name := [CHR 0xC3, CHR 0xA9]\<rparr>"



section \<open>Arithmetic of the C operators\<close>

lemma int32_id: "INT_MIN \<le> x \<Longrightarrow> x \<le> INT_MAX \<Longrightarrow> int32 x = x"
  by (simp add: int32_def INT_MIN_def INT_MAX_def)

lemma int32_add_left: "int32 (int32 a + b) = int32 (a + b)"
proof -
  have "(((a + 2147483648) mod 4294967296 - 2147483648) + b + 2147483648) mod 4294967296
        = ((a + 2147483648) mod 4294967296 + b) mod 4294967296"
    by (simp add: algebra_simps)
  also have "\<dots> = (a + 2147483648 + b) mod 4294967296"
    by (simp add: mod_add_left_eq)
  finally show ?thesis by (simp add: int32_def algebra_simps)
qed

lemma c_rem_nonneg: "0 \<le> a \<Longrightarrow> c_rem a 10000 = a mod 10000"
  by (cases "a = 0") (simp_all add: c_rem_def)


lemma floor_three_halves: "\<lfloor>real_of_int t * 1.5\<rfloor> = (3 * t) div 2"
proof -
  have "real_of_int t * 1.5 = real_of_int (3 * t) / real_of_int 2" by simp
  then show ?thesis by (simp only: floor_divide_of_int_eq)
qed

lemma double_to_int_watch:
  assumes "0 \<le> t" "\<lfloor>real_of_int t * 1.5\<rfloor> \<le> INT_MAX"
  shows "double_to_int (real_of_int t * 1.5) = \<lfloor>real_of_int t * 1.5\<rfloor>"
proof -
  have "0 \<le> real_of_int t * 1.5" using assms(1) by simp
  moreover have "INT_MIN \<le> \<lfloor>real_of_int t * 1.5\<rfloor>"
    using assms(1) by (simp add: floor_three_halves INT_MIN_def)
  ultimately show ?thesis using assms(2) by (simp add: double_to_int_def Let_def)
qed

lemma watch_level_bound:
  "\<lfloor>real_of_int t * 1.5\<rfloor> \<le> INT_MAX \<longleftrightarrow> t \<le> 1431655765"
  by (simp add: floor_three_halves INT_MAX_def) arith

section \<open>The four-digit format\<close>

lemma zero_char: "CHR ''0'' = char_of (48::nat)"
  by code_simp

lemma replicate_zero_pad:
  "replicate (Suc 0) c = [c]" "replicate 2 c = [c, c]" "replicate 3 c = [c, c, c]"
  by (simp_all add: numeral_2_eq_2 numeral_3_eq_3)

lemma digits10_small:
  assumes "n < 10000"
  shows "zero_pad 4 (digits10 n) =
           [char_of (48 + n div 1000), char_of (48 + n div 100 mod 10),
            char_of (48 + n div 10 mod 10), char_of (48 + n mod 10)]"
proof -
  consider "n < 10" | "10 \<le> n" "n < 100" | "100 \<le> n" "n < 1000" | "1000 \<le> n"
    by linarith
  then show ?thesis
  proof cases
    case 1
    then show ?thesis
      by (simp add: digits10.simps [of n] zero_pad_def zero_char replicate_zero_pad)
  next
    case 2
    then have "n div 10 < 10" "n div 100 = 0" "n div 1000 = 0" by simp_all
    with 2 show ?thesis
      by (simp add: digits10.simps [of n] digits10.simps [of "n div 10"]
            zero_pad_def zero_char replicate_zero_pad)
  next
    case 3
    then have a: "\<not> n div 10 < 10" "n div 10 div 10 < 10" "n div 1000 = 0" by simp_all
    have b: "n div 10 div 10 = n div 100" by (simp add: div_mult2_eq)
    from 3 a b show ?thesis
      by (simp add: digits10.simps [of n] digits10.simps [of "n div 10"]
            digits10.simps [of "n div 100"] zero_pad_def zero_char replicate_zero_pad)
  next
    case 4
    with assms have a: "\<not> n div 10 < 10" "\<not> n div 100 < 10" "n div 1000 < 10" by simp_all
    have b: "n div 10 div 10 = n div 100" "n div 100 div 10 = n div 1000"
      by (simp_all add: div_mult2_eq)
    from 4 a b show ?thesis
      by (simp add: digits10.simps [of n] digits10.simps [of "n div 10"]
            digits10.simps [of "n div 100"] digits10.simps [of "n div 1000"]
            zero_pad_def zero_char replicate_zero_pad)
  qed
qed

lemma sprintf_04d_small:
  assumes "0 \<le> v" "v < 10000"
  shows "sprintf_04d v =
           [char_of (48 + nat v div 1000), char_of (48 + nat v div 100 mod 10),
            char_of (48 + nat v div 10 mod 10), char_of (48 + nat v mod 10)]"
  using assms by (simp add: sprintf_04d_def digits10_small)





section \<open>The checksum as a sum\<close>

lemma foldl_int32_sum:
  "foldl (\<lambda>sum c. int32 (sum + f c)) (int32 a) cs = int32 (a + sum_list (map f cs))"
proof (induction cs arbitrary: a)
  case Nil
  then show ?case by simp
next
  case (Cons c cs)
  have "foldl (\<lambda>sum c. int32 (sum + f c)) (int32 a) (c # cs)
        = foldl (\<lambda>sum c. int32 (sum + f c)) (int32 (a + f c)) cs"
    by (simp add: int32_add_left)
  also have "\<dots> = int32 (a + f c + sum_list (map f cs))" by (rule Cons.IH)
  finally show ?case by (simp add: add.assoc)
qed

lemma calculate_checksum_sum:
  "calculate_checksum item =
     c_rem (int32 (id_e item + quantity item + min_threshold item
                   + sum_list (map char_to_int (name item)))) 10000"
  by (simp add: calculate_checksum_def int32_add_left foldl_int32_sum)

lemma calculate_checksum_nonneg:
  assumes "0 \<le> id_e item + quantity item + min_threshold item + sum_list (map char_to_int (name item))"
    and "id_e item + quantity item + min_threshold item + sum_list (map char_to_int (name item)) \<le> INT_MAX"
  shows "calculate_checksum item =
           (id_e item + quantity item + min_threshold item + sum_list (map char_to_int (name item))) mod 10000"
proof -
  let ?t = "id_e item + quantity item + min_threshold item + sum_list (map char_to_int (name item))"
  have "int32 ?t = ?t" using assms by (intro int32_id) (simp_all add: INT_MIN_def)
  then show ?thesis using assms(1) by (simp add: calculate_checksum_sum c_rem_nonneg)
qed

text \<open>Where the sum is not negative the checksum is printed as four digits, and it
  depends on the id, the quantity, the threshold and the name only.\<close>

lemma digit_char_code: "d < 10 \<Longrightarrow> (of_char (char_of (48 + d :: nat)) :: nat) = 48 + d"
  by (simp add: of_char_of)

lemma sprintf_04d_four_digits:
  assumes "0 \<le> v" "v < 10000"
  shows "length (sprintf_04d v) = 4"
    and "\<forall>c \<in> set (sprintf_04d v). 48 \<le> (of_char c :: nat) \<and> (of_char c :: nat) \<le> 57"
proof -
  have d: "nat v div 1000 < 10" "nat v div 100 mod 10 < 10" "nat v div 10 mod 10 < 10"
    "nat v mod 10 < 10"
    using assms by simp_all
  show "length (sprintf_04d v) = 4"
    using assms by (simp add: sprintf_04d_small)
  show "\<forall>c \<in> set (sprintf_04d v). 48 \<le> (of_char c :: nat) \<and> (of_char c :: nat) \<le> 57"
    unfolding sprintf_04d_small [OF assms]
    using d by (simp add: digit_char_code) arith
qed

lemma calculate_checksum_fields:
  assumes "id_e a = id_e b" "quantity a = quantity b" "min_threshold a = min_threshold b"
    "name a = name b"
  shows "calculate_checksum a = calculate_checksum b"
  using assms by (simp add: calculate_checksum_def)

lemma calculate_checksum_four_digits:
  assumes "0 \<le> id_e item + quantity item + min_threshold item + sum_list (map char_to_int (name item))"
    and "id_e item + quantity item + min_threshold item + sum_list (map char_to_int (name item)) \<le> INT_MAX"
  shows "length (sprintf_04d (calculate_checksum item)) = 4"
    and "\<forall>c \<in> set (sprintf_04d (calculate_checksum item)).
           48 \<le> (of_char c :: nat) \<and> (of_char c :: nat) \<le> 57"
proof -
  have "0 \<le> calculate_checksum item" "calculate_checksum item < 10000"
    by (simp_all add: calculate_checksum_nonneg [OF assms])
  then show "length (sprintf_04d (calculate_checksum item)) = 4"
    and "\<forall>c \<in> set (sprintf_04d (calculate_checksum item)).
           48 \<le> (of_char c :: nat) \<and> (of_char c :: nat) \<le> 57"
    by (rule sprintf_04d_four_digits)+
qed

lemma char_to_int_seven_bit: "(of_char c :: int) < 128 \<Longrightarrow> char_to_int c = of_char c"
  by (simp add: char_to_int_def)

section \<open>Lemmas on the operations\<close>

lemma hash_insert_fields:
  "inventory (hash_insert p s) = inventory s"
  "requests (hash_insert p s) = requests s"
  "item_count (hash_insert p s) = item_count s"
  "request_count (hash_insert p s) = request_count s"
  "next_item_id (hash_insert p s) = next_item_id s"
  "next_request_id (hash_insert p s) = next_request_id s"
  "use_database (hash_insert p s) = use_database s"
  by (simp_all add: hash_insert_def Let_def)

lemma foldl_hash_insert_fields:
  "inventory (foldl (\<lambda>t i. hash_insert i t) s ps) = inventory s \<and>
   requests (foldl (\<lambda>t i. hash_insert i t) s ps) = requests s \<and>
   item_count (foldl (\<lambda>t i. hash_insert i t) s ps) = item_count s \<and>
   request_count (foldl (\<lambda>t i. hash_insert i t) s ps) = request_count s \<and>
   next_item_id (foldl (\<lambda>t i. hash_insert i t) s ps) = next_item_id s \<and>
   next_request_id (foldl (\<lambda>t i. hash_insert i t) s ps) = next_request_id s \<and>
   use_database (foldl (\<lambda>t i. hash_insert i t) s ps) = use_database s"
  by (induction ps arbitrary: s) (simp_all add: hash_insert_fields)

lemma find_by_id_None_iff: "find_by_id s x = None \<longleftrightarrow> x \<notin> set (map id_e (items s))"
  by (auto simp: find_by_id_def find_None_iff items_def)

lemma find_by_id_SomeD:
  assumes "find_by_id s x = Some p"
  shows "0 \<le> p \<and> p < item_count s \<and> id_e (inventory s p) = x"
proof -
  from assms obtain i where "i < length [0..item_count s - 1]"
    and "id_e (inventory s ([0..item_count s - 1] ! i)) = x" and "p = [0..item_count s - 1] ! i"
    by (auto simp: find_by_id_def find_Some_iff)
  moreover from this have "p \<in> set [0..item_count s - 1]" by (metis nth_mem)
  ultimately show ?thesis by auto
qed


subsection \<open>\<^verbatim>\<open>add_equipment\<close>\<close>

lemma add_equipment_full:
  "MAX_ITEMS \<le> item_count s \<Longrightarrow> add_equipment d now db s = (Inl CapacityExceeded, s)"
  by (simp add: add_equipment_def)

lemma add_equipment_result:
  assumes "item_count s < MAX_ITEMS"
  shows "fst (add_equipment d now db s) = Inr (assigned_id s db)"
    and "id_e (inventory (snd (add_equipment d now db s)) (item_count s)) = assigned_id s db"
    and "next_item_id (snd (add_equipment d now db s)) = counter_after s db"
    and "item_count (snd (add_equipment d now db s)) = int32 (item_count s + 1)"
    and "use_database (snd (add_equipment d now db s)) = use_database s"
    and "\<And>i. i \<noteq> item_count s \<Longrightarrow> inventory (snd (add_equipment d now db s)) i = inventory s i"
  using assms
  by (simp_all add: add_equipment_def Let_def hash_insert_fields assigned_id_def counter_after_def)








subsection \<open>\<^verbatim>\<open>update_quantity\<close> and \<^verbatim>\<open>request_supply\<close>\<close>


lemma update_quantity_ids:
  "map id_e (items (snd (update_quantity x q now s))) = map id_e (items s)"
  "item_count (snd (update_quantity x q now s)) = item_count s"
  "next_item_id (snd (update_quantity x q now s)) = next_item_id s"
  by (simp_all add: update_quantity_def Let_def items_def split: option.splits)

lemma request_supply_ids:
  "items (snd (request_supply r now db s)) = items s"
  "item_count (snd (request_supply r now db s)) = item_count s"
  "next_item_id (snd (request_supply r now db s)) = next_item_id s"
  by (simp_all add: request_supply_def Let_def items_def split: option.splits)








subsection \<open>Snapshots\<close>

lemma fread_count_written: "fread_count n (map f [0..n - 1]) = nat n"
  by (simp add: fread_count_def)

lemma fread_into_written:
  "map (fread_into arr n (map f [0..n - 1])) [0..n - 1] = map f [0..n - 1]"
proof (rule map_cong [OF refl])
  fix i
  assume "i \<in> set [0..n - 1]"
  then have i: "0 \<le> i" "i < n" by simp_all
  then have "nat i < nat n" by simp
  moreover have "[0..n - 1] ! nat i = i" using i by (simp add: nth_upto)
  ultimately show "fread_into arr n (map f [0..n - 1]) i = f i"
    using i by (simp add: fread_into_def fread_count_written)
qed

subsection \<open>The two paths of \<^verbatim>\<open>check_inventory\<close>\<close>

lemma check_inventory_index_hit:
  "hash_find s q = Some p \<Longrightarrow> check_inventory s q = [inventory s p]"
  by (simp add: check_inventory_def)

lemma check_inventory_fallback:
  "hash_find s q = None \<Longrightarrow>
   check_inventory s q = filter (\<lambda>e. strcasestr (name e) q) (items s)"
  by (simp add: check_inventory_def)

subsection \<open>The index points to live slots\<close>

lemma add_equipment_hash_table:
  assumes "item_count s < MAX_ITEMS"
  shows "\<exists>b. hash_table (snd (add_equipment d now db s)) =
               (hash_table s)(b := item_count s # hash_table s b)"
  using assms by (auto simp: add_equipment_def Let_def hash_insert_def)

lemma update_quantity_index:
  "hash_table (snd (update_quantity x q now s)) = hash_table s"
  by (simp add: update_quantity_def Let_def split: option.splits)

lemma request_supply_index:
  "hash_table (snd (request_supply r now db s)) = hash_table s"
  by (simp add: request_supply_def Let_def split: option.splits)

lemma index_inv_step:
  assumes "index_inv s" and "step s s'"
  shows "index_inv s'"
  using assms(2)
proof (cases rule: step.cases)
  case (step_add d now db)
  show ?thesis
  proof (cases "item_count s < MAX_ITEMS")
    case False
    with assms(1) step_add show ?thesis by (simp add: add_equipment_full)
  next
    case True
    from assms(1) have k0: "0 \<le> item_count s"
      and old: "\<And>b p. p \<in> set (hash_table s b) \<Longrightarrow> 0 \<le> p \<and> p < item_count s"
      by (auto simp: index_inv_def)
    have "int32 (item_count s + 1) = item_count s + 1"
      using k0 True by (intro int32_id) (simp_all add: MAX_ITEMS_def INT_MIN_def INT_MAX_def)
    then have cnt: "item_count s' = item_count s + 1"
      using True by (simp add: step_add add_equipment_result)
    from add_equipment_hash_table [OF True, of d now db]
    obtain b where ht: "hash_table s' = (hash_table s)(b := item_count s # hash_table s b)"
      unfolding step_add by blast
    have "0 \<le> p \<and> p < item_count s'" if "p \<in> set (hash_table s' c)" for c p
    proof -
      from that have "p = item_count s \<or> p \<in> set (hash_table s c)"
        by (auto simp: ht split: if_splits)
      with old [of p c] k0 cnt show ?thesis by auto
    qed
    with k0 cnt show ?thesis by (simp add: index_inv_def)
  qed
next
  case (step_update x new_qty now)
  with assms(1) show ?thesis
    by (simp add: index_inv_def update_quantity_index update_quantity_ids)
next
  case (step_request r now db)
  with assms(1) show ?thesis
    by (simp add: index_inv_def request_supply_index request_supply_ids)
qed

lemma index_inv_reachable: "reachable s \<Longrightarrow> index_inv s"
proof (induction rule: reachable.induct)
  case (reachable_init db)
  show ?case by (simp add: index_inv_def init_store_def)
next
  case (reachable_step s s')
  then show ?case by (blast intro: index_inv_step)
qed

lemma hash_find_SomeD:
  assumes "hash_find s q = Some p"
  shows "p \<in> set (hash_table s (hash_function q))" and "strcasestr (name (inventory s p)) q"
proof -
  from assms obtain i where i: "i < length (hash_table s (hash_function q))"
    "strcasestr (name (inventory s (hash_table s (hash_function q) ! i))) q"
    "p = hash_table s (hash_function q) ! i"
    by (auto simp: hash_find_def find_Some_iff)
  then show "p \<in> set (hash_table s (hash_function q))" by simp
  from i show "strcasestr (name (inventory s p)) q" by simp
qed

lemma live_slot_in_items: "0 \<le> p \<Longrightarrow> p < item_count s \<Longrightarrow> inventory s p \<in> set (items s)"
  by (simp add: items_def)

subsection \<open>A request for an unknown equipment id\<close>

lemma request_supply_not_found:
  assumes "request_count s < MAX_REQUESTS" and "d_equipment_id r \<notin> set (map id_e (items s))"
  shows "fst (request_supply r now db s) = Inl NotFound"
    and "next_request_id (snd (request_supply r now db s)) = int32 (next_request_id s + 1)"
    and "request_count (snd (request_supply r now db s)) = request_count s"
proof -
  let ?s1 = "s\<lparr>requests := (requests s)(request_count s :=
               (requests s (request_count s))\<lparr>req_id := next_request_id s,
                                              equipment_id := d_equipment_id r\<rparr>),
             next_request_id := int32 (next_request_id s + 1)\<rparr>"
  have "items ?s1 = items s" by (simp add: items_def)
  with assms(2) have "find_by_id ?s1 (d_equipment_id r) = None"
    by (simp add: find_by_id_None_iff)
  with assms(1) show "fst (request_supply r now db s) = Inl NotFound"
    and "next_request_id (snd (request_supply r now db s)) = int32 (next_request_id s + 1)"
    and "request_count (snd (request_supply r now db s)) = request_count s"
    by (simp_all add: request_supply_def Let_def)
qed

subsection \<open>The row loop of the database load\<close>

lemma load_equipment_row_fields:
  "item_count (load_equipment_row rows s i) = item_count s"
  "id_e (inventory (load_equipment_row rows s i) i) = id_e (rows ! nat i)"
  "j \<noteq> i \<Longrightarrow> inventory (load_equipment_row rows s i) j = inventory s j"
  by (simp_all add: load_equipment_row_def Let_def hash_insert_fields)

lemma load_equipment_row_counter:
  assumes "INT_MIN \<le> id_e (rows ! nat i)" "id_e (rows ! nat i) < INT_MAX"
  shows "next_item_id s \<le> next_item_id (load_equipment_row rows s i)"
    and "id_e (rows ! nat i) < next_item_id (load_equipment_row rows s i)"
proof -
  have "int32 (id_e (rows ! nat i) + 1) = id_e (rows ! nat i) + 1"
    using assms by (intro int32_id) (simp_all add: INT_MIN_def INT_MAX_def)
  then show "next_item_id s \<le> next_item_id (load_equipment_row rows s i)"
    and "id_e (rows ! nat i) < next_item_id (load_equipment_row rows s i)"
    by (simp_all add: load_equipment_row_def Let_def hash_insert_fields)
qed

lemma foldl_load_equipment_row:
  assumes "distinct is" and "\<forall>i \<in> set is. INT_MIN \<le> id_e (rows ! nat i) \<and> id_e (rows ! nat i) < INT_MAX"
  shows "item_count (foldl (load_equipment_row rows) s is) = item_count s \<and>
         next_item_id s \<le> next_item_id (foldl (load_equipment_row rows) s is) \<and>
         (\<forall>i \<in> set is. id_e (inventory (foldl (load_equipment_row rows) s is) i)
                          < next_item_id (foldl (load_equipment_row rows) s is))"
  using assms
proof (induction "is" rule: rev_induct)
  case Nil
  then show ?case by simp
next
  case (snoc x xs)
  let ?t = "foldl (load_equipment_row rows) s xs"
  from snoc.prems have dx: "distinct xs" "x \<notin> set xs"
    and rx: "INT_MIN \<le> id_e (rows ! nat x)" "id_e (rows ! nat x) < INT_MAX"
    and rxs: "\<forall>i \<in> set xs. INT_MIN \<le> id_e (rows ! nat i) \<and> id_e (rows ! nat i) < INT_MAX"
    by simp_all
  from snoc.IH [OF dx(1) rxs]
  have ih: "item_count ?t = item_count s" "next_item_id s \<le> next_item_id ?t"
    "\<forall>i \<in> set xs. id_e (inventory ?t i) < next_item_id ?t"
    by simp_all
  note c = load_equipment_row_counter [OF rx, of ?t]
  have "id_e (inventory (load_equipment_row rows ?t x) i) < next_item_id (load_equipment_row rows ?t x)"
    if "i \<in> set (xs @ [x])" for i
  proof (cases "i = x")
    case True
    with c(2) show ?thesis by (simp add: load_equipment_row_fields)
  next
    case False
    with that have "i \<in> set xs" by simp
    with ih(3) have "id_e (inventory ?t i) < next_item_id ?t" by simp
    with c(1) False show ?thesis by (simp add: load_equipment_row_fields)
  qed
  with ih c(1) show ?case by (simp add: load_equipment_row_fields)
qed

lemma load_equipment_from_db_counter:
  assumes "\<forall>r \<in> set rows. INT_MIN \<le> id_e r \<and> id_e r < INT_MAX"
  shows "\<forall>e \<in> set (items (load_equipment_from_db (Some rows) s)).
           id_e e < next_item_id (load_equipment_from_db (Some rows) s)"
proof -
  define n where "n = (if int (length rows) > MAX_ITEMS then MAX_ITEMS else int (length rows))"
  let ?s1 = "s\<lparr>item_count := n\<rparr>"
  let ?t = "foldl (load_equipment_row rows) ?s1 [0..n - 1]"
  have t: "load_equipment_from_db (Some rows) s = ?t"
    by (simp add: load_equipment_from_db_def Let_def n_def)
  have "\<forall>i \<in> set [0..n - 1]. INT_MIN \<le> id_e (rows ! nat i) \<and> id_e (rows ! nat i) < INT_MAX"
  proof
    fix i
    assume "i \<in> set [0..n - 1]"
    then have "nat i < length rows" by (auto simp: n_def split: if_splits)
    then have "rows ! nat i \<in> set rows" by simp
    with assms show "INT_MIN \<le> id_e (rows ! nat i) \<and> id_e (rows ! nat i) < INT_MAX" by blast
  qed
  from foldl_load_equipment_row [OF distinct_upto this, of ?s1]
  have "item_count ?t = n"
    and "\<forall>i \<in> set [0..n - 1]. id_e (inventory ?t i) < next_item_id ?t"
    by simp_all
  then show ?thesis unfolding t by (simp add: items_def)
qed

subsection \<open>The index after a load\<close>

lemma hash_insert_index:
  "set (hash_table (hash_insert p s) b) \<subseteq> insert p (set (hash_table s b))"
  by (auto simp: hash_insert_def Let_def)

lemma foldl_hash_insert_index:
  "set (hash_table (foldl (\<lambda>t i. hash_insert i t) s ps) b) \<subseteq> set ps \<union> set (hash_table s b)"
proof (induction ps arbitrary: s)
  case Nil
  then show ?case by simp
next
  case (Cons p ps)
  from Cons.IH [of "hash_insert p s"] hash_insert_index [of p s b]
  show ?case by auto
qed

lemma load_equipment_row_index:
  "set (hash_table (load_equipment_row rows s i) b) \<subseteq> insert i (set (hash_table s b))"
  by (auto simp: load_equipment_row_def hash_insert_def Let_def)

lemma foldl_load_equipment_row_index:
  "set (hash_table (foldl (load_equipment_row rows) s ps) b) \<subseteq> set ps \<union> set (hash_table s b)"
proof (induction ps arbitrary: s)
  case Nil
  then show ?case by simp
next
  case (Cons p ps)
  from Cons.IH [of "load_equipment_row rows s p"] load_equipment_row_index [of rows s p b]
  show ?case by auto
qed

lemma foldl_load_equipment_row_count:
  "item_count (foldl (load_equipment_row rows) s ps) = item_count s"
  by (induction ps arbitrary: s) (simp_all add: load_equipment_row_fields)

lemma load_requests_from_db_index:
  "hash_table (load_requests_from_db res s) = hash_table s \<and>
   item_count (load_requests_from_db res s) = item_count s"
proof (cases res)
  case None
  then show ?thesis by (simp add: load_requests_from_db_def)
next
  case (Some rows)
  have "hash_table (foldl (load_request_row rows) t ps) = hash_table t \<and>
        item_count (foldl (load_request_row rows) t ps) = item_count t" for t ps
    by (induction ps arbitrary: t) (simp_all add: load_request_row_def Let_def)
  with Some show ?thesis by (simp add: load_requests_from_db_def Let_def)
qed

lemma index_inv_load_equipment_from_db:
  "index_inv (load_equipment_from_db res (init_store db))"
proof (cases res)
  case None
  then show ?thesis by (simp add: load_equipment_from_db_def index_inv_def init_store_def)
next
  case (Some rows)
  define n where "n = (if int (length rows) > MAX_ITEMS then MAX_ITEMS else int (length rows))"
  let ?s1 = "(init_store db)\<lparr>item_count := n\<rparr>"
  let ?t = "foldl (load_equipment_row rows) ?s1 [0..n - 1]"
  have t: "load_equipment_from_db res (init_store db) = ?t"
    by (simp add: Some load_equipment_from_db_def Let_def n_def)
  have n0: "0 \<le> n" by (simp add: n_def MAX_ITEMS_def)
  have cnt: "item_count ?t = n" by (simp add: foldl_load_equipment_row_count)
  have "0 \<le> p \<and> p < n" if "p \<in> set (hash_table ?t b)" for p b
  proof -
    from that foldl_load_equipment_row_index [of rows ?s1 "[0..n - 1]" b]
    have "p \<in> set [0..n - 1] \<union> set (hash_table ?s1 b)" by blast
    then show ?thesis by (simp add: init_store_def)
  qed
  with n0 cnt show ?thesis unfolding t index_inv_def by simp
qed

lemma index_inv_load_equipment_file:
  assumes "load_equipment_file snap (init_store db) = Some s'"
    and "\<And>f. snap = Some f \<Longrightarrow> 0 \<le> snap_count f"
  shows "index_inv s'"
proof (cases snap)
  case None
  with assms(1) have "s' = init_store db" by (simp add: load_equipment_file_def)
  then show ?thesis by (simp add: index_inv_def init_store_def)
next
  case (Some f)
  let ?n = "snap_count f"
  let ?s1 = "(init_store db)\<lparr>item_count := ?n, next_item_id := snap_next_id f,
               inventory := fread_into (inventory (init_store db)) ?n (snap_records f)\<rparr>"
  let ?t = "foldl (\<lambda>t i. hash_insert i t) ?s1 [0..?n - 1]"
  from assms(1) Some have s': "s' = ?t"
    by (simp add: load_equipment_file_def Let_def split: if_splits)
  have n0: "0 \<le> ?n" using assms(2) Some by simp
  have cnt: "item_count ?t = ?n"
    using foldl_hash_insert_fields [of ?s1 "[0..?n - 1]"] by simp
  have "0 \<le> p \<and> p < ?n" if "p \<in> set (hash_table ?t b)" for p b
  proof -
    from that foldl_hash_insert_index [of ?s1 "[0..?n - 1]" b]
    have "p \<in> set [0..?n - 1] \<union> set (hash_table ?s1 b)" by blast
    then show ?thesis by (simp add: init_store_def)
  qed
  with n0 cnt show ?thesis unfolding s' index_inv_def by simp
qed

lemma index_inv_load_data:
  assumes "load_data db_items db_reqs fs (init_store db) = Some s'"
    and "\<And>f. data_file fs = Some f \<Longrightarrow> 0 \<le> snap_count f"
  shows "index_inv s'"
proof (cases db)
  case True
  with assms(1) have "s' = load_requests_from_db db_reqs
                             (load_equipment_from_db db_items (init_store db))"
    by (simp add: load_data_def init_store_def)
  with index_inv_load_equipment_from_db [of db_items db]
    load_requests_from_db_index [of db_reqs "load_equipment_from_db db_items (init_store db)"]
  show ?thesis by (simp add: index_inv_def)
next
  case False
  with assms(1) obtain s1 where s1: "load_equipment_file (data_file fs) (init_store db) = Some s1"
    and s': "load_request_file (request_file fs) s1 = Some s'"
    by (auto simp: load_data_def init_store_def split: option.splits)
  from index_inv_load_equipment_file [OF s1 assms(2)] have "index_inv s1" by simp
  moreover from s' have "hash_table s' = hash_table s1 \<and> item_count s' = item_count s1"
    by (auto simp: load_request_file_def split: option.splits if_splits)
  ultimately show ?thesis by (simp add: index_inv_def)
qed

subsection \<open>Offline runs\<close>

lemma answers_fresh_offline:
  assumes "\<not> use_database s" and "INT_MIN \<le> next_item_id s"
    and "next_item_id s + int (length cs) \<le> INT_MAX"
  shows "answers_fresh cs s"
  using assms
proof (induction cs arbitrary: s)
  case Nil
  then show ?case by simp
next
  case (Cons c cs)
  obtain d now db where c: "c = (d, now, db)" by (cases c)
  let ?s' = "snd (add_equipment d now db s)"
  from Cons.prems have fresh: "answer_fresh s db"
    by (simp add: answer_fresh_def)
  have "\<not> use_database ?s' \<and> INT_MIN \<le> next_item_id ?s' \<and>
        next_item_id ?s' + int (length cs) \<le> INT_MAX"
  proof (cases "item_count s < MAX_ITEMS")
    case True
    have "int32 (next_item_id s + 1) = next_item_id s + 1"
      using Cons.prems by (intro int32_id) (simp_all add: INT_MIN_def)
    with True Cons.prems show ?thesis
      by (simp add: add_equipment_result counter_after_def)
  next
    case False
    with Cons.prems show ?thesis by (simp add: add_equipment_full)
  qed
  then have "answers_fresh cs ?s'" by (intro Cons.IH) simp_all
  with fresh show ?case by (simp add: c)
qed

section \<open>The claims\<close>

text \<open>
  Claim C1: \<^verbatim>\<open>check_inventory\<close> displays every record whose name contains the query,
  letter case ignored, whichever of \<^verbatim>\<open>hash_find\<close> and the linear scan finds it; no
  such record is left out when the index finds a match. The code displays the single
  record \<^verbatim>\<open>hash_find\<close> returns and scans the inventory only when the index finds
  nothing. In the store \<open>two_radios\<close> the names \<open>radio\<close> and \<open>radio set\<close> both contain
  the query \<open>radio\<close>; the index finds the first, and the second is not displayed.
\<close>

theorem check_inventory_index_hit_counterexample:
  "map name (items two_radios) = [''radio'', ''radio set''] \<and>
   strcasestr ''radio'' ''radio'' \<and> strcasestr ''radio set'' ''radio'' \<and>
   hash_find two_radios ''radio'' = Some 0 \<and>
   map name (check_inventory two_radios ''radio'') = [''radio'']"
  by code_simp

text \<open>
  Claim C1, amended: when \<^verbatim>\<open>hash_find\<close> finds no match for the query,
  \<^verbatim>\<open>check_inventory\<close> displays exactly the records held whose names contain the
  query, letter case ignored, in store order; when \<^verbatim>\<open>hash_find\<close> finds a match, it
  displays that one record, which is held and whose name contains the query. In both
  cases every record displayed is held and its name contains the query. The store is one
  whose index points to live slots: the store after the load at start-up
  (\<open>index_inv_load_data\<close>) and any store the operations reach from there or from the
  initial state (\<open>index_inv_step\<close>, \<open>index_inv_reachable\<close>).
\<close>

theorem check_inventory_paths:
  assumes "index_inv s"
  shows "(hash_find s q = None \<longrightarrow>
            check_inventory s q = filter (\<lambda>e. strcasestr (name e) q) (items s)) \<and>
         (\<forall>p. hash_find s q = Some p \<longrightarrow>
            check_inventory s q = [inventory s p] \<and>
            inventory s p \<in> set (items s) \<and> strcasestr (name (inventory s p)) q) \<and>
         (\<forall>e \<in> set (check_inventory s q). e \<in> set (items s) \<and> strcasestr (name e) q)"
proof -
  have miss: "check_inventory s q = filter (\<lambda>e. strcasestr (name e) q) (items s)"
    if "hash_find s q = None"
    using that by (rule check_inventory_fallback)
  have hit: "check_inventory s q = [inventory s p] \<and>
             inventory s p \<in> set (items s) \<and> strcasestr (name (inventory s p)) q"
    if "hash_find s q = Some p" for p
  proof -
    from that have "p \<in> set (hash_table s (hash_function q))"
      and m: "strcasestr (name (inventory s p)) q"
      by (rule hash_find_SomeD)+
    with assms have "0 \<le> p \<and> p < item_count s"
      by (simp add: index_inv_def)
    then have "inventory s p \<in> set (items s)" by (simp add: live_slot_in_items)
    with m that show ?thesis by (simp add: check_inventory_index_hit)
  qed
  have "\<forall>e \<in> set (check_inventory s q). e \<in> set (items s) \<and> strcasestr (name e) q"
  proof (cases "hash_find s q")
    case None
    then show ?thesis by (simp add: miss)
  next
    case (Some p)
    with hit [OF Some] show ?thesis by simp
  qed
  with miss hit show ?thesis by blast
qed

theorem check_inventory_paths_witness:
  "index_inv two_radios \<and>
   hash_find two_radios ''adi'' = None \<and>
   map name (check_inventory two_radios ''adi'') = [''radio'', ''radio set''] \<and>
   hash_find two_radios ''radio set'' = Some 1 \<and>
   map name (check_inventory two_radios ''radio set'') = [''radio set'']"
proof -
  have r0: "reachable (init_store False)" by (rule reachable_init)
  have r1: "reachable (snd (add_equipment radio_draft 100 None (init_store False)))"
    by (rule reachable_step [OF r0 step_add])
  have r2: "reachable two_radios"
    unfolding two_radios_def by (rule reachable_step [OF r1 step_add])
  have m: "hash_find two_radios ''adi'' = None" by code_simp
  have h: "hash_find two_radios ''radio set'' = Some 1" by code_simp
  have f: "map name (filter (\<lambda>e. strcasestr (name e) ''adi'') (items two_radios))
             = [''radio'', ''radio set'']"
    by code_simp
  have n: "name (inventory two_radios 1) = ''radio set''" by code_simp
  have i: "index_inv two_radios" using r2 by (rule index_inv_reachable)
  note t = check_inventory_paths [OF i]
  from t [of "''adi''"] m
  have "check_inventory two_radios ''adi'' =
          filter (\<lambda>e. strcasestr (name e) ''adi'') (items two_radios)"
    by blast
  with f have a: "map name (check_inventory two_radios ''adi'') = [''radio'', ''radio set'']"
    by (simp only:)
  from t [of "''radio set''"] h
  have "check_inventory two_radios ''radio set'' = [inventory two_radios 1]"
    by blast
  with n have b: "map name (check_inventory two_radios ''radio set'') = [''radio set'']"
    by (simp only: list.map)
  from i m a h b show ?thesis by (intro conjI)
qed

text \<open>
  Claim C2: \<^verbatim>\<open>request_supply\<close> for an equipment id that no record holds fails with
  NotFound and leaves the request-id counter and the requests unchanged. The code takes
  the id from \<^verbatim>\<open>next_request_id\<close> and increments the counter before it looks the
  equipment up. In \<open>two_radios\<close> no record has id 7: the call fails, the requests held are
  the same, yet the counter went from 1 to 2 and the next request is given id 2.
\<close>

theorem request_supply_not_found_consumes_id:
  "find_by_id two_radios 7 = None \<and>
   fst (request_supply missing_request 100 None two_radios) = Inl NotFound \<and>
   reqs (snd (request_supply missing_request 100 None two_radios)) = reqs two_radios \<and>
   next_request_id two_radios = 1 \<and>
   next_request_id (snd (request_supply missing_request 100 None two_radios)) = 2 \<and>
   fst (request_supply radio_request 200 None
          (snd (request_supply missing_request 100 None two_radios))) = Inr 2"
  by code_simp

text \<open>
  Claim C3: for every item with non-negative quantity and threshold,
  \<^verbatim>\<open>get_stock_status\<close> is Low exactly when the quantity is at most the threshold,
  otherwise Watch exactly when the quantity is at most the floor of one and a half times
  the threshold, otherwise OK. The code compares the quantity with
  \<^verbatim>\<open>(int)(min_threshold * 1.5)\<close>, and for a threshold above 1431655765 the product is
  not an \<^verbatim>\<open>int\<close>. For \<open>large_threshold_item\<close> (quantity 2147483647, threshold
  1431655766) the quantity is above the threshold and at most the floor of one and a half
  times the threshold, 2147483649, yet the status is OK and not Watch.
\<close>

theorem get_stock_status_large_threshold_counterexample:
  "0 \<le> quantity large_threshold_item \<and> 0 \<le> min_threshold large_threshold_item \<and>
   \<not> quantity large_threshold_item \<le> min_threshold large_threshold_item \<and>
   quantity large_threshold_item
     \<le> \<lfloor>real_of_int (min_threshold large_threshold_item) * 1.5\<rfloor> \<and>
   get_stock_status large_threshold_item = STATUS_OK \<and>
   get_stock_status large_threshold_item \<noteq> STATUS_WATCH"
  by (simp add: large_threshold_item_def zero_equipment_def get_stock_status_def
        double_to_int_def floor_three_halves INT_MIN_def INT_MAX_def)

text \<open>
  Claim C3, amended: for every item with non-negative quantity and threshold whose watch
  level, the floor of one and a half times the threshold, is an \<^verbatim>\<open>int\<close> (a threshold
  of at most 1431655765), \<^verbatim>\<open>get_stock_status\<close> is Low exactly when the quantity is at
  most the threshold, otherwise Watch exactly when the quantity is at most the watch
  level, otherwise OK; the Low test comes first. With threshold 10, quantity 10 is Low,
  14 is Watch and 16 is OK.
\<close>

theorem get_stock_status_spec:
  assumes "0 \<le> quantity item" and "0 \<le> min_threshold item"
    and "\<lfloor>real_of_int (min_threshold item) * 1.5\<rfloor> \<le> INT_MAX"
  shows "(get_stock_status item = STATUS_LOW \<longleftrightarrow> quantity item \<le> min_threshold item) \<and>
         (get_stock_status item = STATUS_WATCH \<longleftrightarrow>
            \<not> quantity item \<le> min_threshold item \<and>
            quantity item \<le> \<lfloor>real_of_int (min_threshold item) * 1.5\<rfloor>) \<and>
         (get_stock_status item = STATUS_OK \<longleftrightarrow>
            \<not> quantity item \<le> min_threshold item \<and>
            \<not> quantity item \<le> \<lfloor>real_of_int (min_threshold item) * 1.5\<rfloor>) \<and>
         get_stock_status (item\<lparr>quantity := 10, min_threshold := 10\<rparr>) = STATUS_LOW \<and>
         get_stock_status (item\<lparr>quantity := 14, min_threshold := 10\<rparr>) = STATUS_WATCH \<and>
         get_stock_status (item\<lparr>quantity := 16, min_threshold := 10\<rparr>) = STATUS_OK"
proof -
  have w: "double_to_int (real_of_int (min_threshold item) * 1.5)
             = \<lfloor>real_of_int (min_threshold item) * 1.5\<rfloor>"
    using assms(2,3) by (rule double_to_int_watch)
  have ten: "double_to_int (real_of_int 10 * 1.5) = 15"
    by (simp add: double_to_int_def INT_MIN_def INT_MAX_def)
  show ?thesis
    using w ten by (simp add: get_stock_status_def)
qed

theorem get_stock_status_spec_witness:
  "0 \<le> quantity (zero_equipment\<lparr>quantity := 10, min_threshold := 7\<rparr>) \<and>
   0 \<le> min_threshold (zero_equipment\<lparr>quantity := 10, min_threshold := 7\<rparr>) \<and>
   \<lfloor>real_of_int (min_threshold (zero_equipment\<lparr>quantity := 10, min_threshold := 7\<rparr>)) * 1.5\<rfloor>
     \<le> INT_MAX \<and>
   get_stock_status (zero_equipment\<lparr>quantity := 11, min_threshold := 7\<rparr>) = STATUS_OK \<and>
   get_stock_status (zero_equipment\<lparr>quantity := 10, min_threshold := 7\<rparr>) = STATUS_WATCH \<and>
   get_stock_status (zero_equipment\<lparr>quantity := 7, min_threshold := 7\<rparr>) = STATUS_LOW"
proof -
  have h: "0 \<le> quantity (zero_equipment\<lparr>quantity := q, min_threshold := 7\<rparr>)"
    "0 \<le> min_threshold (zero_equipment\<lparr>quantity := q, min_threshold := 7\<rparr>)"
    "\<lfloor>real_of_int (min_threshold (zero_equipment\<lparr>quantity := q, min_threshold := 7\<rparr>)) * 1.5\<rfloor>
       \<le> INT_MAX"
    if "0 \<le> q" for q
    using that by (simp_all add: floor_three_halves INT_MAX_def)
  show ?thesis
    using get_stock_status_spec [OF h(1) h(2) h(3), of 11]
      get_stock_status_spec [OF h(1) h(2) h(3), of 10]
      get_stock_status_spec [OF h(1) h(2) h(3), of 7] h [of 10]
    by (simp add: floor_three_halves)
qed

text \<open>
  Claim C4: the checksum of an item is id + quantity + threshold + the character codes of
  the name, modulo 10000, as a four-digit string, and depends on these four fields only.
  \<^verbatim>\<open>calculate_checksum\<close> adds the characters of the name as signed values and takes
  the remainder with \<^verbatim>\<open>%\<close>, so a name of bytes from \<open>0x80\<close> on can make the sum and the
  remainder negative. For \<open>accented_item\<close> (id 1, quantity and threshold 0, a name of the
  two bytes \<open>0xC3 0xA9\<close>) the checksum is \<open>-147\<close>, printed as \<open>-147\<close>: not four digits.
  (Lemmas \<open>calculate_checksum_nonneg\<close>, \<open>calculate_checksum_four_digits\<close> and
  \<open>calculate_checksum_fields\<close> give the claimed value, format and dependence where the sum
  is not negative.)
\<close>

theorem checksum_of_negative_sum:
  "map char_to_int (name accented_item) = [- 61, - 87] \<and>
   calculate_checksum accented_item = - 147 \<and>
   sprintf_04d (calculate_checksum accented_item) = ''-147''"
  by code_simp

text \<open>
  Claim C5: after a load from either backend the counter is above every loaded id, so no
  later \<^verbatim>\<open>add_equipment\<close> issues a loaded id. \<^verbatim>\<open>load_equipment_from_db\<close> advances
  the counter past each row's id; the file branch of \<^verbatim>\<open>load_data\<close> takes the counter
  from the snapshot as it is. The rows with ids 1 and 2 leave the counter at 3 when they
  come from the database; from \<open>stale_files\<close> the same records are loaded with the
  counter at 2, and the next item added is given id 2 again.
\<close>

theorem file_load_keeps_stored_counter:
  "next_item_id (load_equipment_from_db (Some stale_rows) (init_store True)) = 3 \<and>
   load_data None None stale_files (init_store False) \<noteq> None \<and>
   map id_e (items (the (load_data None None stale_files (init_store False)))) = [1, 2] \<and>
   next_item_id (the (load_data None None stale_files (init_store False))) = 2 \<and>
   fst (add_equipment radio_set_draft 100 None
          (the (load_data None None stale_files (init_store False)))) = Inr 2"
  by code_simp




text \<open>
  Claim C7: offline, \<^verbatim>\<open>save_data\<close> followed by \<^verbatim>\<open>load_data\<close> gives back the same
  equipment records and supply requests, in the same order and field for field, and the
  same two counters. Both files are written (each \<^verbatim>\<open>fopen\<close> succeeds), the counts are
  not negative and within the capacity of the arrays, and the load may start from any
  offline state.
\<close>

theorem save_load_round_trip:
  assumes "\<not> use_database s" and "\<not> use_database t"
    and "0 \<le> item_count s" and "item_count s \<le> MAX_ITEMS"
    and "0 \<le> request_count s" and "request_count s \<le> MAX_REQUESTS"
  shows "\<exists>fs' s'. save_data True True s fs = Some fs' \<and>
           load_data db_items db_reqs fs' t = Some s' \<and>
           items s' = items s \<and> reqs s' = reqs s \<and>
           item_count s' = item_count s \<and> request_count s' = request_count s \<and>
           next_item_id s' = next_item_id s \<and> next_request_id s' = next_request_id s"
proof -
  let ?n = "item_count s" and ?m = "request_count s"
  define fs' where "fs' =
    \<lparr>data_file = Some \<lparr>snap_count = ?n, snap_next_id = next_item_id s,
                         snap_records = map (inventory s) [0..?n - 1]\<rparr>,
     request_file = Some \<lparr>snap_count = ?m, snap_next_id = next_request_id s,
                            snap_records = map (requests s) [0..?m - 1]\<rparr>\<rparr>"
  have sv: "save_data True True s fs = Some fs'"
    using assms(1,3,4,5,6) by (simp add: save_data_def save_snapshot_def fwrite_from_def fs'_def)
  have df: "data_file fs' = Some \<lparr>snap_count = ?n, snap_next_id = next_item_id s,
                       snap_records = map (inventory s) [0..?n - 1]\<rparr>"
    and rf: "request_file fs' = Some \<lparr>snap_count = ?m, snap_next_id = next_request_id s,
                       snap_records = map (requests s) [0..?m - 1]\<rparr>"
    by (simp_all add: fs'_def)
  define t0 where "t0 = t\<lparr>item_count := ?n, next_item_id := next_item_id s,
      inventory := fread_into (inventory t) ?n (map (inventory s) [0..?n - 1])\<rparr>"
  define t1 where "t1 = foldl (\<lambda>u i. hash_insert i u) t0 [0..item_count t0 - 1]"
  have n_ok: "\<not> (?n > MAX_ITEMS \<or>
                 int (fread_count ?n (map (inventory s) [0..?n - 1])) > MAX_ITEMS)"
    using assms(4) by (simp add: fread_count_written MAX_ITEMS_def)
  have l1: "load_equipment_file (data_file fs') t = Some t1"
    unfolding df load_equipment_file_def using n_ok
    by (simp add: Let_def t1_def t0_def)
  have t1_fields: "inventory t1 = inventory t0" "requests t1 = requests t0"
    "item_count t1 = item_count t0" "request_count t1 = request_count t0"
    "next_item_id t1 = next_item_id t0" "next_request_id t1 = next_request_id t0"
    using foldl_hash_insert_fields [of t0 "[0..item_count t0 - 1]"] by (simp_all add: t1_def)
  define t2 where "t2 = t1\<lparr>request_count := ?m, next_request_id := next_request_id s,
      requests := fread_into (requests t1) ?m (map (requests s) [0..?m - 1])\<rparr>"
  have m_ok: "\<not> int (fread_count ?m (map (requests s) [0..?m - 1])) > MAX_REQUESTS"
    using assms(6) by (simp add: fread_count_written MAX_REQUESTS_def)
  have l2: "load_request_file (request_file fs') t1 = Some t2"
    unfolding rf load_request_file_def using m_ok by (simp add: t2_def)
  have l: "load_data db_items db_reqs fs' t = Some t2"
    using assms(2) l1 l2 by (simp add: load_data_def)
  have "items t2 = items s"
    by (simp add: items_def t2_def t1_fields t0_def fread_into_written)
  moreover have "reqs t2 = reqs s"
    by (simp add: reqs_def t2_def fread_into_written)
  moreover have "item_count t2 = ?n" "request_count t2 = ?m"
    "next_item_id t2 = next_item_id s" "next_request_id t2 = next_request_id s"
    by (simp_all add: t2_def t1_fields t0_def)
  ultimately show ?thesis using sv l by blast
qed

theorem save_load_round_trip_witness:
  "\<not> use_database radio_requested \<and> \<not> use_database (init_store False) \<and>
   0 \<le> item_count radio_requested \<and> item_count radio_requested \<le> MAX_ITEMS \<and>
   0 \<le> request_count radio_requested \<and> request_count radio_requested \<le> MAX_REQUESTS \<and>
   map name (items radio_requested) = [''radio'', ''radio set''] \<and>
   map req_id (reqs radio_requested) = [1] \<and>
   (\<exists>fs' s'. save_data True True radio_requested no_files = Some fs' \<and>
          load_data None None fs' (init_store False) = Some s' \<and>
          items s' = items radio_requested \<and> reqs s' = reqs radio_requested \<and>
          item_count s' = item_count radio_requested \<and>
          request_count s' = request_count radio_requested \<and>
          next_item_id s' = next_item_id radio_requested \<and>
          next_request_id s' = next_request_id radio_requested)"
proof -
  have h1: "\<not> use_database radio_requested" by code_simp
  have h2: "\<not> use_database (init_store False)" by code_simp
  have h3: "0 \<le> item_count radio_requested" by code_simp
  have h4: "item_count radio_requested \<le> MAX_ITEMS" by code_simp
  have h5: "0 \<le> request_count radio_requested" by code_simp
  have h6: "request_count radio_requested \<le> MAX_REQUESTS" by code_simp
  have e1: "map name (items radio_requested) = [''radio'', ''radio set'']" by code_simp
  have e2: "map req_id (reqs radio_requested) = [1]" by code_simp
  note rt = save_load_round_trip [OF h1 h2 h3 h4 h5 h6, of no_files None None]
  from h1 h2 h3 h4 h5 h6 e1 e2 rt show ?thesis by (intro conjI)
qed

text \<open>
  Claim C8: \<^verbatim>\<open>update_quantity\<close> fails with NotFound and leaves the store as it is when
  no record has the id. When a record has it, the first such record gets the new quantity,
  the time of the call and the checksum of its new content; its other fields, every other
  slot of the inventory, the requests, the index, the two counts, the two counters and
  the mode are unchanged.
\<close>

theorem update_quantity_frame:
  "(x \<notin> set (map id_e (items s)) \<longrightarrow> update_quantity x new_qty now s = (Inl NotFound, s)) \<and>
   (x \<in> set (map id_e (items s)) \<longrightarrow>
      (\<exists>p. 0 \<le> p \<and> p < item_count s \<and> id_e (inventory s p) = x \<and>
        (let r = update_quantity x new_qty now s; s' = snd r;
             old = inventory s p; new = inventory s' p
         in fst r = Inr () \<and>
            quantity new = new_qty \<and> last_updated new = now \<and>
            checksum new = sprintf_04d (calculate_checksum new) \<and>
            id_e new = id_e old \<and> name new = name old \<and>
            description new = description old \<and> min_threshold new = min_threshold old \<and>
            unit new = unit old \<and> location new = location old \<and>
            classification new = classification old \<and>
            (\<forall>j. j \<noteq> p \<longrightarrow> inventory s' j = inventory s j) \<and>
            requests s' = requests s \<and> hash_table s' = hash_table s \<and>
            item_count s' = item_count s \<and> request_count s' = request_count s \<and>
            next_item_id s' = next_item_id s \<and> next_request_id s' = next_request_id s \<and>
            use_database s' = use_database s)))"
proof (cases "find_by_id s x")
  case None
  then have "x \<notin> set (map id_e (items s))" by (simp add: find_by_id_None_iff)
  moreover from None have "update_quantity x new_qty now s = (Inl NotFound, s)"
    by (simp add: update_quantity_def)
  ultimately show ?thesis by blast
next
  case (Some p)
  then have in_set: "x \<in> set (map id_e (items s))"
    using find_by_id_None_iff [of s x] by simp
  from Some have p: "0 \<le> p \<and> p < item_count s \<and> id_e (inventory s p) = x"
    by (rule find_by_id_SomeD)
  have "let r = update_quantity x new_qty now s; s' = snd r;
             old = inventory s p; new = inventory s' p
         in fst r = Inr () \<and>
            quantity new = new_qty \<and> last_updated new = now \<and>
            checksum new = sprintf_04d (calculate_checksum new) \<and>
            id_e new = id_e old \<and> name new = name old \<and>
            description new = description old \<and> min_threshold new = min_threshold old \<and>
            unit new = unit old \<and> location new = location old \<and>
            classification new = classification old \<and>
            (\<forall>j. j \<noteq> p \<longrightarrow> inventory s' j = inventory s j) \<and>
            requests s' = requests s \<and> hash_table s' = hash_table s \<and>
            item_count s' = item_count s \<and> request_count s' = request_count s \<and>
            next_item_id s' = next_item_id s \<and> next_request_id s' = next_request_id s \<and>
            use_database s' = use_database s"
    using Some by (simp add: update_quantity_def Let_def calculate_checksum_def)
  with p in_set show ?thesis by blast
qed

theorem update_quantity_frame_witness:
  "7 \<notin> set (map id_e (items two_radios)) \<and>
   update_quantity 7 40 300 two_radios = (Inl NotFound, two_radios) \<and>
   2 \<in> set (map id_e (items two_radios)) \<and>
   fst (update_quantity 2 40 300 two_radios) = Inr () \<and>
   item_count (snd (update_quantity 2 40 300 two_radios)) = item_count two_radios \<and>
   map quantity (items (snd (update_quantity 2 40 300 two_radios))) = [12, 40] \<and>
   map checksum (items (snd (update_quantity 2 40 300 two_radios))) = [''0550'', ''0935'']"
proof -
  have h1: "7 \<notin> set (map id_e (items two_radios))" by code_simp
  have h2: "2 \<in> set (map id_e (items two_radios))" by code_simp
  from update_quantity_frame [of 7 two_radios 40 300] h1
  have a: "update_quantity 7 40 300 two_radios = (Inl NotFound, two_radios)" by blast
  from update_quantity_frame [of 2 two_radios 40 300] h2
  have b: "fst (update_quantity 2 40 300 two_radios) = Inr () \<and>
           item_count (snd (update_quantity 2 40 300 two_radios)) = item_count two_radios"
    by (auto simp: Let_def)
  have e1: "map quantity (items (snd (update_quantity 2 40 300 two_radios))) = [12, 40]"
    by code_simp
  have e2: "map checksum (items (snd (update_quantity 2 40 300 two_radios))) = [''0550'', ''0935'']"
    by code_simp
  from h1 a h2 b e1 e2 show ?thesis by (intro conjI) simp_all
qed






end
